theory Spec2Isabelle
  imports Main "HOL-Library.Sublist"
begin

section \<open>Data model\<close>

text \<open>
  The values of src/index.js. A field that a JavaScript object may lack is an
  \<open>option\<close> (\<open>None\<close> is \<open>undefined\<close>). Identifiers are strings, as the
  data model of the source's header comment has them.
\<close>

datatype json =
    JNull
  | JBool bool
  | JNum int
  | JStr string
  | JArr "json list"
  | JObj "(string \<times> json) list"

datatype error =
    TypeError
  | UnsupportedSubject string
  | NoScopeDefined string
  | VariableNotDefined json

text \<open>
  An entity \<open>{ id, name, entities }\<close>; the tree below it is the list \<open>entities\<close>,
  which may be absent.
\<close>

datatype entity = Entity (id_e: string) (name_e: string) (entities: "entity list option")

text \<open>
  The subject of a check: a plain object of which the scope functions read the fields
  \<open>id\<close>, \<open>entityId\<close>, \<open>entity\<close>, \<open>entityIds\<close>, \<open>caregiverId\<close> and
  \<open>caregiverIds\<close>, each of which may be absent.
\<close>

record subj =
  id_s :: "string option"
  entityId :: "string option"
  entity_s :: "entity option"
  entityIds :: "string list option"
  caregiverId :: "string option"
  caregiverIds :: "string list option"

text \<open>The rule context handed to a scope function; only \<open>rule.subject\<close> is read.\<close>

record rule =
  subject :: string

text \<open>
  A permission declaration of a role. \<open>scope\<close> is a name or an array of names.
  The permission objects are shared and mutated in place by \<open>decorate\<close>, so they live
  in a heap and a role holds their addresses.
\<close>

datatype scope = Name string | Names "string list"

record permission =
  actions :: json
  subject_p :: string
  scope :: "scope option"
  conditions :: "json option"

type_synonym addr = nat

type_synonym heap = "addr \<Rightarrow> permission"

record role =
  name_r :: string
  permissions :: "addr list"

text \<open>
  What \<open>decorate\<close> hands to the rule engine: the permission with its scope names
  replaced by closures over the user. A closure either calls a predicate of the catalog
  or a property that the catalog object inherits from \<open>Object.prototype\<close>.
\<close>

datatype closure = Pred "subj \<Rightarrow> rule \<Rightarrow> error + bool" | Builtin string

datatype rscope = Raw scope | Fn closure | Fns "closure list"

record rperm =
  actions_r :: json
  subject_r :: string
  scope_r :: "rscope option"
  conditions_r :: "json option"

text \<open>\<open>new Ability(permissions)\<close>: the decision object of the rule engine, built from the rules.\<close>

datatype ability = Ability "rperm list"

record user =
  id_u :: string
  entity_u :: entity
  roles :: "role list"
  ability :: "ability option"

section \<open>JavaScript and lodash primitives\<close>

text \<open>Truthiness of a possibly absent string: \<open>undefined\<close> and \<open>""\<close> are falsy.\<close>

definition truthy :: "string option \<Rightarrow> bool" where
  "truthy v = (case v of None \<Rightarrow> False | Some s \<Rightarrow> s \<noteq> [])"

text \<open>\<open>a || b\<close> on possibly absent strings.\<close>

definition or_js :: "string option \<Rightarrow> string option \<Rightarrow> string option" where
  "or_js a b = (if truthy a then a else b)"

text \<open>
  \<open>_indexOf(array, value)\<close> of lodash: the index of the first element strictly equal
  to \<open>value\<close>, \<open>-1\<close> when there is none or when the array is absent.
\<close>

fun indexOf_list :: "string list \<Rightarrow> string \<Rightarrow> int" where
  "indexOf_list [] v = -1"
| "indexOf_list (x # xs) v =
     (if x = v then 0
      else (let i = indexOf_list xs v in if i = -1 then -1 else i + 1))"

definition indexOf :: "string list option \<Rightarrow> string option \<Rightarrow> int" where
  "indexOf array v =
     (case array of
        None \<Rightarrow> -1
      | Some xs \<Rightarrow> (case v of None \<Rightarrow> -1 | Some x \<Rightarrow> indexOf_list xs x))"

text \<open>
  \<open>_intersection(xs, ys)\<close> of lodash: the elements of the first array that the second
  one has, each once, in the order of the first array; an absent array counts as empty.
\<close>

fun uniq :: "string list \<Rightarrow> string list \<Rightarrow> string list" where
  "uniq seen [] = []"
| "uniq seen (x # xs) = (if x \<in> set seen then uniq seen xs else x # uniq (x # seen) xs)"

definition intersection :: "string list \<Rightarrow> string list option \<Rightarrow> string list" where
  "intersection xs array =
     (case array of None \<Rightarrow> [] | Some ys \<Rightarrow> uniq [] (filter (\<lambda>x. x \<in> set ys) xs))"

section \<open>Scope functions\<close>

definition IS_PRIMARY_CAREGIVER :: "user \<Rightarrow> subj \<Rightarrow> rule \<Rightarrow> error + bool" where
  "IS_PRIMARY_CAREGIVER user patient rule = Inr (Some (id_u user) = caregiverId patient)"

definition IS_CAREGIVER :: "user \<Rightarrow> subj \<Rightarrow> rule \<Rightarrow> error + bool" where
  "IS_CAREGIVER user patient rule =
     (case IS_PRIMARY_CAREGIVER user patient rule of
        Inl e \<Rightarrow> Inl e
      | Inr True \<Rightarrow> Inr True
      | Inr False \<Rightarrow>
          (case caregiverIds patient of
             None \<Rightarrow> Inr False
           | Some ids \<Rightarrow> Inr (indexOf (Some ids) (Some (id_u user)) \<noteq> -1)))"

definition BELONGS_TO_ENTITY :: "user \<Rightarrow> subj \<Rightarrow> rule \<Rightarrow> error + bool" where
  "BELONGS_TO_ENTITY user sub rule =
     (if subject rule = ''User'' then
        (if truthy (entityId sub) then Inr (Some (id_e (entity_u user)) = entityId sub)
         else (case entity_s sub of
                 None \<Rightarrow> Inl TypeError
               | Some e \<Rightarrow> Inr (id_e (entity_u user) = id_e e)))
      else if subject rule = ''Entity'' then
        Inr (Some (id_e (entity_u user)) = or_js (entityId sub) (id_s sub))
      else if subject rule = ''Patient'' then
        (let subjectEntityIds =
               (if truthy (entityId sub) then map_option (\<lambda>x. [x]) (entityId sub)
                else entityIds sub)
         in Inr (indexOf subjectEntityIds (Some (id_e (entity_u user))) \<noteq> -1))
      else Inl (UnsupportedSubject (subject rule)))"

text \<open>
  \<open>_getIds(entity, ids, levels, level)\<close> pushes onto the array \<open>ids\<close>; the model
  returns the array after the call.
\<close>

fun getIds :: "entity \<Rightarrow> string list \<Rightarrow> int \<Rightarrow> int \<Rightarrow> string list" where
  "getIds (Entity i n es) ids levels level =
     (let ids1 = ids @ [i] in
      case es of
        None \<Rightarrow> ids1
      | Some cs \<Rightarrow>
          if cs = [] then ids1
          else if level = levels then ids1
          else fold (\<lambda>e acc. getIds e acc levels (level + 1)) cs ids1)"

definition entityMembership :: "string list \<Rightarrow> subj \<Rightarrow> rule \<Rightarrow> error + bool" where
  "entityMembership userEntityIds sub rule =
     (if subject rule = ''User'' then
        (if truthy (entityId sub) then Inr (indexOf (Some userEntityIds) (entityId sub) \<noteq> -1)
         else (case entity_s sub of
                 None \<Rightarrow> Inl TypeError
               | Some e \<Rightarrow> Inr (indexOf (Some userEntityIds) (Some (id_e e)) \<noteq> -1)))
      else if subject rule = ''Entity'' then
        Inr (indexOf (Some userEntityIds) (or_js (entityId sub) (id_s sub)) \<noteq> -1)
      else if subject rule = ''Patient'' then
        (let subjectEntityIds =
               (if truthy (entityId sub) then map_option (\<lambda>x. [x]) (entityId sub)
                else entityIds sub)
         in Inr (intersection userEntityIds subjectEntityIds \<noteq> []))
      else Inl (UnsupportedSubject (subject rule)))"

definition BELONGS_TO_SUB_ENTITIES :: "user \<Rightarrow> subj \<Rightarrow> rule \<Rightarrow> error + bool" where
  "BELONGS_TO_SUB_ENTITIES user sub rule =
     (case BELONGS_TO_ENTITY user sub rule of
        Inl e \<Rightarrow> Inl e
      | Inr True \<Rightarrow> Inr True
      | Inr False \<Rightarrow> entityMembership (getIds (entity_u user) [] 1 0) sub rule)"

definition BELONGS_TO_ENTITY_TREE :: "user \<Rightarrow> subj \<Rightarrow> rule \<Rightarrow> error + bool" where
  "BELONGS_TO_ENTITY_TREE user sub rule =
     (case BELONGS_TO_ENTITY user sub rule of
        Inl e \<Rightarrow> Inl e
      | Inr True \<Rightarrow> Inr True
      | Inr False \<Rightarrow> entityMembership (getIds (entity_u user) [] 10000 0) sub rule)"

section \<open>The catalog of scope functions\<close>

text \<open>
  \<open>SCOPE_FUNCTIONS\<close> is a plain object literal, and \<open>SCOPE_FUNCTIONS[fcnName]\<close> is
  a property lookup on it: it finds the five own properties and, failing those, the
  properties every plain object inherits from \<open>Object.prototype\<close>, all of which are
  truthy.
\<close>

definition Object_prototype :: "string list" where
  "Object_prototype =
     [''constructor'', ''__defineGetter__'', ''__defineSetter__'', ''hasOwnProperty'',
      ''__lookupGetter__'', ''__lookupSetter__'', ''isPrototypeOf'',
      ''propertyIsEnumerable'', ''toString'', ''valueOf'', ''__proto__'',
      ''toLocaleString'']"

datatype scope_entry = Own "user \<Rightarrow> subj \<Rightarrow> rule \<Rightarrow> error + bool" | Inherited string

definition SCOPE_FUNCTIONS :: "string \<Rightarrow> scope_entry option" where
  "SCOPE_FUNCTIONS fcnName =
     (if fcnName = ''IS_PRIMARY_CAREGIVER'' then Some (Own IS_PRIMARY_CAREGIVER)
      else if fcnName = ''IS_CAREGIVER'' then Some (Own IS_CAREGIVER)
      else if fcnName = ''BELONGS_TO_ENTITY'' then Some (Own BELONGS_TO_ENTITY)
      else if fcnName = ''BELONGS_TO_SUB_ENTITIES'' then Some (Own BELONGS_TO_SUB_ENTITIES)
      else if fcnName = ''BELONGS_TO_ENTITY_TREE'' then Some (Own BELONGS_TO_ENTITY_TREE)
      else if fcnName \<in> set Object_prototype then Some (Inherited fcnName)
      else None)"

section \<open>Resolution of a conditions template\<close>

text \<open>
  \<open>resolveVariables\<close> writes the template with \<open>JSON.stringify\<close> and reads it back
  with \<open>JSON.parse\<close> and a reviver. A \<open>json\<close> value is what \<open>JSON.parse\<close> reads
  back from the text of a JSON-serializable template, so the model starts from it. The
  fields of a \<open>JObj\<close> are in the order in which \<open>JSON.parse\<close> visits them.

  \<open>index0\<close> is \<open>rawValue[0]\<close>: the first character of a string, the first element
  of an array, the property \<open>0\<close> of an object, \<open>undefined\<close> on a number or a
  boolean, and a \<open>TypeError\<close> on \<open>null\<close>.
\<close>

fun index0 :: "json \<Rightarrow> error + json option" where
  "index0 JNull = Inl TypeError"
| "index0 (JBool b) = Inr None"
| "index0 (JNum n) = Inr None"
| "index0 (JStr s) = Inr (case s of [] \<Rightarrow> None | c # cs \<Rightarrow> Some (JStr [c]))"
| "index0 (JArr xs) = Inr (case xs of [] \<Rightarrow> None | x # ys \<Rightarrow> Some x)"
| "index0 (JObj kvs) = Inr (map_of kvs ''0'')"

text \<open>
  \<open>rawValue.slice(2, -1)\<close>: strings and arrays have the method, which drops the first
  two and the last element; an object has no such method and the call is a
  \<open>TypeError\<close>.
\<close>

fun slice_2 :: "json \<Rightarrow> error + json" where
  "slice_2 (JStr s) = Inr (JStr (drop 2 (butlast s)))"
| "slice_2 (JArr xs) = Inr (JArr (drop 2 (butlast xs)))"
| "slice_2 v = Inl TypeError"

text \<open>
  The reviver. \<open>get\<close> stands for \<open>_get\<close> of lodash.get, which is not part of the
  repository: \<open>get variables name\<close> is the value at the path \<open>name\<close>, \<open>None\<close>
  when it is \<open>undefined\<close>.
\<close>

definition reviver :: "('v \<Rightarrow> json \<Rightarrow> json option) \<Rightarrow> 'v \<Rightarrow> json \<Rightarrow> error + json" where
  "reviver get variables rawValue =
     (case index0 rawValue of
        Inl e \<Rightarrow> Inl e
      | Inr c \<Rightarrow>
          if c \<noteq> Some (JStr ''$'') then Inr rawValue
          else (case slice_2 rawValue of
                  Inl e \<Rightarrow> Inl e
                | Inr name \<Rightarrow>
                    (case get variables name of
                       None \<Rightarrow> Inl (VariableNotDefined name)
                     | Some v \<Rightarrow> Inr v)))"

text \<open>
  \<open>JSON.parse\<close> with a reviver revives the elements of an array and the fields of an
  object first, in order, and then calls the reviver on the array or object that holds
  the revived values. The first exception ends the walk.
\<close>

fun internalize :: "('v \<Rightarrow> json \<Rightarrow> json option) \<Rightarrow> 'v \<Rightarrow> json \<Rightarrow> error + json"
  and internalize_list :: "('v \<Rightarrow> json \<Rightarrow> json option) \<Rightarrow> 'v \<Rightarrow> json list \<Rightarrow> error + json list"
  and internalize_fields ::
    "('v \<Rightarrow> json \<Rightarrow> json option) \<Rightarrow> 'v \<Rightarrow> (string \<times> json) list \<Rightarrow> error + (string \<times> json) list"
where
  "internalize get vars (JArr xs) =
     (case internalize_list get vars xs of
        Inl e \<Rightarrow> Inl e
      | Inr ys \<Rightarrow> reviver get vars (JArr ys))"
| "internalize get vars (JObj kvs) =
     (case internalize_fields get vars kvs of
        Inl e \<Rightarrow> Inl e
      | Inr kws \<Rightarrow> reviver get vars (JObj kws))"
| "internalize get vars JNull = reviver get vars JNull"
| "internalize get vars (JBool b) = reviver get vars (JBool b)"
| "internalize get vars (JNum n) = reviver get vars (JNum n)"
| "internalize get vars (JStr s) = reviver get vars (JStr s)"
| "internalize_list get vars [] = Inr []"
| "internalize_list get vars (x # xs) =
     (case internalize get vars x of
        Inl e \<Rightarrow> Inl e
      | Inr y \<Rightarrow>
          (case internalize_list get vars xs of
             Inl e \<Rightarrow> Inl e
           | Inr ys \<Rightarrow> Inr (y # ys)))"
| "internalize_fields get vars [] = Inr []"
| "internalize_fields get vars ((k, x) # kvs) =
     (case internalize get vars x of
        Inl e \<Rightarrow> Inl e
      | Inr y \<Rightarrow>
          (case internalize_fields get vars kvs of
             Inl e \<Rightarrow> Inl e
           | Inr kws \<Rightarrow> Inr ((k, y) # kws)))"

definition resolveVariables ::
  "('v \<Rightarrow> json \<Rightarrow> json option) \<Rightarrow> json \<Rightarrow> 'v \<Rightarrow> error + json" where
  "resolveVariables get json variables = internalize get variables json"

section \<open>Decoration\<close>

text \<open>Truthiness of a JSON value, for \<open>if ( p.conditions )\<close>.\<close>

fun truthy_json :: "json \<Rightarrow> bool" where
  "truthy_json JNull = False"
| "truthy_json (JBool b) = b"
| "truthy_json (JNum n) = (n \<noteq> 0)"
| "truthy_json (JStr s) = (s \<noteq> [])"
| "truthy_json (JArr xs) = True"
| "truthy_json (JObj kvs) = True"

text \<open>Truthiness of \<open>p.scope\<close>: an array is truthy, a string is unless it is empty.\<close>

fun truthy_scope :: "scope option \<Rightarrow> bool" where
  "truthy_scope None = False"
| "truthy_scope (Some (Name n)) = (n \<noteq> [])"
| "truthy_scope (Some (Names ns)) = True"

text \<open>
  The closure \<open>(o, rule) => SCOPE_FUNCTIONS[fcnName](user, o, rule)\<close>. Calling a name
  the catalog lacks would call \<open>undefined\<close>, a \<open>TypeError\<close>.
\<close>

definition bind :: "user \<Rightarrow> string \<Rightarrow> closure" where
  "bind user fcnName =
     (case SCOPE_FUNCTIONS fcnName of
        None \<Rightarrow> Pred (\<lambda>obj rule. Inl TypeError)
      | Some (Own f) \<Rightarrow> Pred (\<lambda>obj rule. f user obj rule)
      | Some (Inherited m) \<Rightarrow> Builtin m)"

text \<open>The \<open>forEach\<close> that throws at the first name without an entry.\<close>

fun validate :: "string list \<Rightarrow> error + unit" where
  "validate [] = Inr ()"
| "validate (fcnName # rest) =
     (case SCOPE_FUNCTIONS fcnName of
        None \<Rightarrow> Inl (NoScopeDefined fcnName)
      | Some f \<Rightarrow> validate rest)"

definition pass :: "permission \<Rightarrow> rperm" where
  "pass p = \<lparr>actions_r = actions p, subject_r = subject_p p,
             scope_r = map_option Raw (scope p), conditions_r = conditions p\<rparr>"

text \<open>The second half of the callback of \<open>permissions.map\<close>, from \<open>if ( ! p.scope )\<close> on.\<close>

definition bind_scope :: "user \<Rightarrow> permission \<Rightarrow> error + rperm" where
  "bind_scope user p =
     (if \<not> truthy_scope (scope p) then Inr (pass p)
      else
        (let fcnNames = (case scope p of Some (Names ns) \<Rightarrow> ns | Some (Name n) \<Rightarrow> [n] | None \<Rightarrow> [])
         in case validate fcnNames of
              Inl e \<Rightarrow> Inl e
            | Inr u \<Rightarrow>
                (case fcnNames of
                   [fcnName] \<Rightarrow> Inr ((pass p)\<lparr>scope_r := Some (Fn (bind user fcnName))\<rparr>)
                 | ns \<Rightarrow> Inr ((pass p)\<lparr>scope_r := Some (Fns (map (bind user) ns))\<rparr>))))"

text \<open>
  The callback of \<open>permissions.map\<close> on the permission object at address \<open>a\<close>. The
  assignment \<open>p.conditions = resolveVariables(p.conditions, {user})\<close> writes to the
  object in the heap. The variables \<open>{user}\<close> are the user with the heap its roles
  point into.
\<close>

definition decorate_permission ::
  "(heap \<times> user \<Rightarrow> json \<Rightarrow> json option) \<Rightarrow> user \<Rightarrow> heap \<Rightarrow> addr \<Rightarrow> (error + rperm) \<times> heap" where
  "decorate_permission get user h a =
     (let p = h a in
      case conditions p of
        None \<Rightarrow> (bind_scope user p, h)
      | Some c \<Rightarrow>
          if \<not> truthy_json c then (bind_scope user p, h)
          else (case resolveVariables get c (h, user) of
                  Inl e \<Rightarrow> (Inl e, h)
                | Inr c' \<Rightarrow>
                    (let p' = p\<lparr>conditions := Some c'\<rparr>
                     in (bind_scope user p', h(a := p')))))"

fun decorate_permissions ::
  "(heap \<times> user \<Rightarrow> json \<Rightarrow> json option) \<Rightarrow> user \<Rightarrow> heap \<Rightarrow> addr list \<Rightarrow> (error + rperm list) \<times> heap" where
  "decorate_permissions get user h [] = (Inr [], h)"
| "decorate_permissions get user h (a # rest) =
     (case decorate_permission get user h a of
        (Inl e, h') \<Rightarrow> (Inl e, h')
      | (Inr r, h') \<Rightarrow>
          (case decorate_permissions get user h' rest of
             (Inl e, h'') \<Rightarrow> (Inl e, h'')
           | (Inr rs, h'') \<Rightarrow> (Inr (r # rs), h'')))"

definition decorate ::
  "(heap \<times> user \<Rightarrow> json \<Rightarrow> json option) \<Rightarrow> heap \<Rightarrow> user \<Rightarrow> (error + ability) \<times> heap" where
  "decorate get h user =
     (case decorate_permissions get user h (concat (map permissions (roles user))) of
        (Inl e, h') \<Rightarrow> (Inl e, h')
      | (Inr ps, h') \<Rightarrow> (Inr (Ability ps), h'))"

definition decorateUser ::
  "(heap \<times> user \<Rightarrow> json \<Rightarrow> json option) \<Rightarrow> heap \<Rightarrow> user \<Rightarrow> (error + user) \<times> heap" where
  "decorateUser get h user =
     (case decorate get h user of
        (Inl e, h') \<Rightarrow> (Inl e, h')
      | (Inr ab, h') \<Rightarrow> (Inr (user\<lparr>ability := Some ab\<rparr>), h'))"

text \<open>
  \<open>_cloneDeep(user)\<close> copies the user with everything it reaches, so the copy holds
  its roles and their permissions by value.
\<close>

record role_copy =
  name_c :: string
  permissions_c :: "permission list"

record user_copy =
  id_c :: string
  entity_c :: entity
  roles_c :: "role_copy list"
  ability_c :: "ability option"

definition cloneDeep :: "heap \<Rightarrow> user \<Rightarrow> user_copy" where
  "cloneDeep h user =
     \<lparr>id_c = id_u user, entity_c = entity_u user,
      roles_c = map (\<lambda>r. \<lparr>name_c = name_r r, permissions_c = map h (permissions r)\<rparr>) (roles user),
      ability_c = ability user\<rparr>"

definition decorateUserImmutable ::
  "(heap \<times> user \<Rightarrow> json \<Rightarrow> json option) \<Rightarrow> heap \<Rightarrow> user \<Rightarrow> (error + user_copy) \<times> heap" where
  "decorateUserImmutable get h user =
     (let iuser = cloneDeep h user in
      case decorate get h user of
        (Inl e, h') \<Rightarrow> (Inl e, h')
      | (Inr ab, h') \<Rightarrow> (Inr (iuser\<lparr>ability_c := Some ab\<rparr>), h'))"

section \<open>Notions the claims are stated with\<close>

text \<open>The children of an entity; an absent \<open>entities\<close> has none.\<close>

definition children :: "entity \<Rightarrow> entity list" where
  "children e = (case entities e of None \<Rightarrow> [] | Some cs \<Rightarrow> cs)"

text \<open>The ids of all nodes of the tree below and including an entity, parents first.\<close>

fun all_ids :: "entity \<Rightarrow> string list" where
  "all_ids (Entity i n es) =
     i # (case es of None \<Rightarrow> [] | Some cs \<Rightarrow> concat (map all_ids cs))"

text \<open>The ids of the nodes at most \<open>d\<close> levels below an entity.\<close>

fun ids_within :: "nat \<Rightarrow> entity \<Rightarrow> string set" where
  "ids_within d (Entity i n es) =
     insert i (case es of
                 None \<Rightarrow> {}
               | Some cs \<Rightarrow> if d = 0 then {} else \<Union> (ids_within (d - 1) ` set cs))"

text \<open>The number of levels below an entity.\<close>

fun height :: "entity \<Rightarrow> nat" where
  "height (Entity i n es) =
     (case es of
        None \<Rightarrow> 0
      | Some cs \<Rightarrow> if cs = [] then 0 else Suc (fold max (map height cs) 0))"

text \<open>
  The entity ids a subject resolves to, in the words of the catalog: for a \<open>User\<close> the
  prospective \<open>entityId\<close>, else the \<open>id\<close> of its \<open>entity\<close>; for an \<open>Entity\<close> the
  prospective \<open>entityId\<close>, else its own \<open>id\<close>; for a \<open>Patient\<close> the singleton of
  the prospective \<open>entityId\<close>, else its \<open>entityIds\<close>. \<open>None\<close> when the subject
  type is not supported or a \<open>User\<close> has neither field.
\<close>

definition resolved_ids :: "subj \<Rightarrow> rule \<Rightarrow> string list option" where
  "resolved_ids sub rule =
     (if subject rule = ''User'' then
        (if truthy (entityId sub) then map_option (\<lambda>x. [x]) (entityId sub)
         else map_option (\<lambda>e. [id_e e]) (entity_s sub))
      else if subject rule = ''Entity'' then
        (case or_js (entityId sub) (id_s sub) of None \<Rightarrow> Some [] | Some x \<Rightarrow> Some [x])
      else if subject rule = ''Patient'' then
        (if truthy (entityId sub) then map_option (\<lambda>x. [x]) (entityId sub)
         else (case entityIds sub of None \<Rightarrow> Some [] | Some xs \<Rightarrow> Some xs))
      else None)"

text \<open>A chain of \<open>n\<close> entities \<open>node\<close> above one entity \<open>leaf\<close>.\<close>

fun chain :: "nat \<Rightarrow> entity" where
  "chain 0 = Entity ''leaf'' ''Leaf'' (Some [])"
| "chain (Suc n) = Entity ''node'' ''Node'' (Some [chain n])"

text \<open>
  Template resolution as the specification words it, with the placeholder test the code
  makes: a string whose first character is \<open>$\<close> is replaced by the value at the path
  that its characters from the third to the last but one spell, everything else is
  copied.
\<close>

fun substitute :: "('v \<Rightarrow> json \<Rightarrow> json option) \<Rightarrow> 'v \<Rightarrow> json \<Rightarrow> error + json"
  and substitute_list :: "('v \<Rightarrow> json \<Rightarrow> json option) \<Rightarrow> 'v \<Rightarrow> json list \<Rightarrow> error + json list"
  and substitute_fields ::
    "('v \<Rightarrow> json \<Rightarrow> json option) \<Rightarrow> 'v \<Rightarrow> (string \<times> json) list \<Rightarrow> error + (string \<times> json) list"
where
  "substitute get vars (JStr s) =
     (if s \<noteq> [] \<and> hd s = CHR ''$'' then
        (case get vars (JStr (drop 2 (butlast s))) of
           None \<Rightarrow> Inl (VariableNotDefined (JStr (drop 2 (butlast s))))
         | Some v \<Rightarrow> Inr v)
      else Inr (JStr s))"
| "substitute get vars (JArr xs) = map_sum id JArr (substitute_list get vars xs)"
| "substitute get vars (JObj kvs) = map_sum id JObj (substitute_fields get vars kvs)"
| "substitute get vars JNull = Inr JNull"
| "substitute get vars (JBool b) = Inr (JBool b)"
| "substitute get vars (JNum n) = Inr (JNum n)"
| "substitute_list get vars [] = Inr []"
| "substitute_list get vars (x # xs) =
     (case substitute get vars x of
        Inl e \<Rightarrow> Inl e
      | Inr y \<Rightarrow> map_sum id ((#) y) (substitute_list get vars xs))"
| "substitute_fields get vars [] = Inr []"
| "substitute_fields get vars ((k, x) # kvs) =
     (case substitute get vars x of
        Inl e \<Rightarrow> Inl e
      | Inr y \<Rightarrow> map_sum id ((#) (k, y)) (substitute_fields get vars kvs))"

text \<open>The template has no \<open>null\<close> in it.\<close>

fun no_null :: "json \<Rightarrow> bool" where
  "no_null JNull = False"
| "no_null (JArr xs) = list_all no_null xs"
| "no_null (JObj kvs) = list_all (\<lambda>kv. no_null (snd kv)) kvs"
| "no_null v = True"

text \<open>The paths that the placeholders of a template name.\<close>

fun placeholders :: "json \<Rightarrow> string list" where
  "placeholders (JStr s) = (if s \<noteq> [] \<and> hd s = CHR ''$'' then [drop 2 (butlast s)] else [])"
| "placeholders (JArr xs) = concat (map placeholders xs)"
| "placeholders (JObj kvs) = concat (map (\<lambda>kv. placeholders (snd kv)) kvs)"
| "placeholders v = []"

section \<open>A model of lodash.get\<close>

text \<open>
  Modelled from the spec: \<open>_get\<close> is lodash.get, a package the repository requires and
  does not contain. The specification calls it a dotted-path lookup: the path is split
  at its dots and followed through the fields of objects; a path that leaves the objects
  is \<open>undefined\<close>. The variables are \<open>{user}\<close>, written as JSON from the user and
  the heap its roles point into.
\<close>

fun split_dots :: "string \<Rightarrow> string list" where
  "split_dots [] = [[]]"
| "split_dots (c # cs) =
     (if c = CHR ''.'' then [] # split_dots cs
      else (case split_dots cs of [] \<Rightarrow> [[c]] | k # ks \<Rightarrow> (c # k) # ks))"

fun get_path :: "json \<Rightarrow> string list \<Rightarrow> json option" where
  "get_path v [] = Some v"
| "get_path (JObj kvs) (k # ks) =
     (case map_of kvs k of None \<Rightarrow> None | Some v \<Rightarrow> get_path v ks)"
| "get_path v (k # ks) = None"

fun entity_json :: "entity \<Rightarrow> json" where
  "entity_json (Entity i n es) =
     JObj ([(''id'', JStr i), (''name'', JStr n)] @
           (case es of None \<Rightarrow> [] | Some cs \<Rightarrow> [(''entities'', JArr (map entity_json cs))]))"

definition permission_json :: "permission \<Rightarrow> json" where
  "permission_json p =
     JObj ([(''actions'', actions p), (''subject'', JStr (subject_p p))] @
           (case scope p of
              None \<Rightarrow> []
            | Some (Name n) \<Rightarrow> [(''scope'', JStr n)]
            | Some (Names ns) \<Rightarrow> [(''scope'', JArr (map JStr ns))]) @
           (case conditions p of None \<Rightarrow> [] | Some c \<Rightarrow> [(''conditions'', c)]))"

definition role_json :: "heap \<Rightarrow> role \<Rightarrow> json" where
  "role_json h r =
     JObj [(''name'', JStr (name_r r)),
           (''permissions'', JArr (map (\<lambda>a. permission_json (h a)) (permissions r)))]"

definition user_json :: "heap \<Rightarrow> user \<Rightarrow> json" where
  "user_json h u =
     JObj [(''id'', JStr (id_u u)), (''entity'', entity_json (entity_u u)),
           (''roles'', JArr (map (role_json h) (roles u)))]"

fun lodash_get :: "heap \<times> user \<Rightarrow> json \<Rightarrow> json option" where
  "lodash_get (h, u) (JStr path) = get_path (JObj [(''user'', user_json h u)]) (split_dots path)"
| "lodash_get (h, u) path = None"

section \<open>Sample data\<close>

text \<open>The hierarchy of src/t/test-changes.js and some of its users and patients.\<close>

definition HTA1 :: entity where "HTA1 = Entity ''hta1'' ''HTA1'' (Some [])"
definition HTA2 :: entity where "HTA2 = Entity ''hta2'' ''HTA2'' (Some [])"
definition SE1 :: entity where "SE1 = Entity ''se1'' ''SE1'' (Some [])"
definition SE2 :: entity where "SE2 = Entity ''se2'' ''SE2'' (Some [])"
definition CVS :: entity where "CVS = Entity ''cvs'' ''CVS'' (Some [HTA1, HTA2])"
definition CVSPilot :: entity where "CVSPilot = Entity ''cvsp'' ''CVS Pilot'' (Some [SE1, SE2])"
definition SmartMonitor :: entity where
  "SmartMonitor = Entity ''sm'' ''Smart Monitor'' (Some [CVS, CVSPilot])"

definition no_fields :: subj where
  "no_fields = \<lparr>id_s = None, entityId = None, entity_s = None, entityIds = None,
                caregiverId = None, caregiverIds = None\<rparr>"

definition patientHTA1 :: subj where
  "patientHTA1 = no_fields\<lparr>id_s := Some ''pid1'', caregiverId := Some ''uid3'',
                           entityIds := Some [''hta1'']\<rparr>"

definition patientSE1 :: subj where
  "patientSE1 = no_fields\<lparr>id_s := Some ''pid3'', caregiverId := Some ''uid5'',
                          entityIds := Some [''se1'']\<rparr>"

definition nurseHTA1 :: user where
  "nurseHTA1 = \<lparr>id_u = ''uid3'', entity_u = HTA1, roles = [], ability = None\<rparr>"

definition managerForCVS :: user where
  "managerForCVS = \<lparr>id_u = ''uid7'', entity_u = CVS, roles = [], ability = None\<rparr>"

text \<open>The administrator of the tests, and an entity and a user passed as the subject of a check.\<close>

definition entityAdminForSM :: user where
  "entityAdminForSM = \<lparr>id_u = ''uid10'', entity_u = SmartMonitor, roles = [], ability = None\<rparr>"

definition entity_subject :: "entity \<Rightarrow> subj" where
  "entity_subject e = no_fields\<lparr>id_s := Some (id_e e)\<rparr>"

definition user_subject :: "user \<Rightarrow> subj" where
  "user_subject u = no_fields\<lparr>id_s := Some (id_u u), entity_s := Some (entity_u u)\<rparr>"

text \<open>
  An administrator whose entity has 10001 levels below it, and a prospective user of the
  entity at the bottom; an entity with a child of the same id; a subject with no fields.
\<close>

definition deep_admin :: user where
  "deep_admin = \<lparr>id_u = ''uid0'', entity_u = chain 10001, roles = [], ability = None\<rparr>"

definition leaf_user :: subj where
  "leaf_user = no_fields\<lparr>entityId := Some ''leaf''\<rparr>"

definition twins :: entity where
  "twins = Entity ''a'' ''A'' (Some [Entity ''a'' ''A again'' (Some [])])"

text \<open>A heap of blank permissions, and a conditions template with one placeholder.\<close>

definition no_permission :: permission where
  "no_permission = \<lparr>actions = JArr [], subject_p = [], scope = None, conditions = None\<rparr>"

definition empty_heap :: heap where
  "empty_heap = (\<lambda>a. no_permission)"

definition sample_template :: json where
  "sample_template =
     JObj [(''ownerId'', JStr ''${user.id}''), (''kind'', JStr ''patient''),
           (''limit'', JNum 5), (''tags'', JArr [JStr ''a'', JBool True])]"

text \<open>
  A role whose one permission has a conditions template, the permission being the object
  at address 0, and users that hold the role.
\<close>

definition owner_permission :: permission where
  "owner_permission =
     \<lparr>actions = JStr ''update'', subject_p = ''Patient'', scope = None,
      conditions = Some (JObj [(''ownerId'', JStr ''${user.id}'')])\<rparr>"

definition owner_role :: role where
  "owner_role = \<lparr>name_r = ''owner'', permissions = [0]\<rparr>"

definition owner_heap :: heap where
  "owner_heap = empty_heap(0 := owner_permission)"

definition ownerHTA1 :: user where
  "ownerHTA1 = \<lparr>id_u = ''uid3'', entity_u = HTA1, roles = [owner_role], ability = None\<rparr>"

definition ownerHTA2 :: user where
  "ownerHTA2 = \<lparr>id_u = ''uid4'', entity_u = HTA2, roles = [owner_role], ability = None\<rparr>"

definition ownerDollar :: user where
  "ownerDollar = \<lparr>id_u = ''$7'', entity_u = HTA1, roles = [owner_role], ability = None\<rparr>"

text \<open>
  A role whose one permission names the scope \<open>constructor\<close>, and a user that holds
  it.
\<close>

definition builtin_permission :: permission where
  "builtin_permission =
     \<lparr>actions = JStr ''read'', subject_p = ''Patient'', scope = Some (Name ''constructor''),
      conditions = None\<rparr>"

definition builtin_heap :: heap where
  "builtin_heap = empty_heap(0 := builtin_permission)"

definition readerHTA1 :: user where
  "readerHTA1 = \<lparr>id_u = ''uid3'', entity_u = HTA1,
                  roles = [\<lparr>name_r = ''reader'', permissions = [0]\<rparr>], ability = None\<rparr>"

section \<open>Properties\<close>

subsection \<open>The lodash primitives\<close>

lemma indexOf_list_range: "indexOf_list xs v = -1 \<or> 0 \<le> indexOf_list xs v"
  by (induction xs) (auto simp: Let_def)

lemma indexOf_list_found: "indexOf_list xs v \<noteq> -1 \<longleftrightarrow> v \<in> set xs"
proof (induction xs)
  case Nil
  show ?case by simp
next
  case (Cons x xs)
  have "indexOf_list xs v = -1 \<or> 0 \<le> indexOf_list xs v" by (rule indexOf_list_range)
  with Cons show ?case by (auto simp: Let_def)
qed

lemma indexOf_found:
  "indexOf (Some xs) (Some v) \<noteq> -1 \<longleftrightarrow> v \<in> set xs"
  by (simp add: indexOf_def indexOf_list_found)

lemma indexOf_undefined: "indexOf (Some xs) None = -1" "indexOf None v = -1"
  by (simp_all add: indexOf_def)

lemma set_uniq: "set (uniq seen xs) = set xs - set seen"
  by (induction seen xs rule: uniq.induct) auto

lemma intersection_nonempty:
  "intersection xs (Some ys) \<noteq> [] \<longleftrightarrow> (\<exists>x \<in> set ys. x \<in> set xs)"
proof -
  have "set (intersection xs (Some ys)) = set xs \<inter> set ys"
    by (auto simp: intersection_def set_uniq)
  then show ?thesis by (metis disjoint_iff empty_set set_empty)
qed

lemma intersection_undefined: "intersection xs None = []"
  by (simp add: intersection_def)

subsection \<open>The entity tree walker\<close>

lemma getIds_eq:
  "getIds (Entity i n es) ids L l =
     (case es of
        None \<Rightarrow> ids @ [i]
      | Some cs \<Rightarrow>
          if cs = [] \<or> l = L then ids @ [i]
          else fold (\<lambda>e acc. getIds e acc L (l + 1)) cs (ids @ [i]))"
  by (simp add: Let_def split: option.splits)

declare getIds.simps [simp del]

lemma fold_getIds_append:
  assumes "\<And>c acc. c \<in> set cs \<Longrightarrow> getIds c acc L l = acc @ getIds c [] L l"
  shows "fold (\<lambda>e acc. getIds e acc L l) cs ids = ids @ concat (map (\<lambda>e. getIds e [] L l) cs)"
  using assms
proof (induction cs arbitrary: ids)
  case Nil
  show ?case by simp
next
  case (Cons c cs)
  have step: "getIds c ids L l = ids @ getIds c [] L l"
    by (rule Cons.prems) simp
  have rest: "fold (\<lambda>e acc. getIds e acc L l) cs (ids @ getIds c [] L l)
        = (ids @ getIds c [] L l) @ concat (map (\<lambda>e. getIds e [] L l) cs)"
    by (rule Cons.IH) (rule Cons.prems, simp)
  have "fold (\<lambda>e acc. getIds e acc L l) (c # cs) ids
        = fold (\<lambda>e acc. getIds e acc L l) cs (getIds c ids L l)" by simp
  also have "\<dots> = (ids @ getIds c [] L l) @ concat (map (\<lambda>e. getIds e [] L l) cs)"
    unfolding step by (rule rest)
  finally show ?case by simp
qed

lemma getIds_append: "getIds e ids L l = ids @ getIds e [] L l"
proof (induction e ids L l rule: getIds.induct)
  case (1 i n es ids levels level)
  show ?case
  proof (cases es)
    case None
    then show ?thesis by (simp add: getIds_eq)
  next
    case (Some cs)
    show ?thesis
    proof (cases "cs = [] \<or> level = levels")
      case True
      with Some show ?thesis by (simp add: getIds_eq)
    next
      case False
      then have ne: "cs \<noteq> []" and lv: "level \<noteq> levels" by simp_all
      have ih: "\<And>c acc. c \<in> set cs \<Longrightarrow>
                 getIds c acc levels (level + 1) = acc @ getIds c [] levels (level + 1)"
        by (rule "1.IH"[OF refl Some ne lv])
      have "getIds (Entity i n es) ids levels level
            = (ids @ [i]) @ concat (map (\<lambda>e. getIds e [] levels (level + 1)) cs)"
        using Some False fold_getIds_append[OF ih, of cs "ids @ [i]"] by (simp add: getIds_eq)
      moreover have "getIds (Entity i n es) [] levels level
            = [i] @ concat (map (\<lambda>e. getIds e [] levels (level + 1)) cs)"
        using Some False fold_getIds_append[OF ih, of cs "[i]"] by (simp add: getIds_eq)
      ultimately show ?thesis by simp
    qed
  qed
qed

lemma getIds_unfold:
  "getIds (Entity i n es) [] L l =
     i # (case es of None \<Rightarrow> []
          | Some cs \<Rightarrow> if l = L then [] else concat (map (\<lambda>c. getIds c [] L (l + 1)) cs))"
proof (cases es)
  case None
  then show ?thesis by (simp add: getIds_eq)
next
  case (Some cs)
  have "fold (\<lambda>e acc. getIds e acc L (l + 1)) cs [i] = [i] @ concat (map (\<lambda>e. getIds e [] L (l + 1)) cs)"
    by (rule fold_getIds_append) (rule getIds_append)
  with Some show ?thesis by (auto simp: getIds_eq)
qed

lemma set_getIds_unfold:
  "set (getIds (Entity i n es) [] L l) =
     insert i (case es of None \<Rightarrow> {}
               | Some cs \<Rightarrow> if l = L then {} else (\<Union>c \<in> set cs. set (getIds c [] L (l + 1))))"
  by (auto simp: getIds_unfold split: option.splits)

lemma set_getIds_within:
  "l \<le> L \<Longrightarrow> set (getIds e [] L l) = ids_within (nat (L - l)) e"
proof (induction e arbitrary: l rule: all_ids.induct)
  case (1 i n es)
  show ?case
  proof (cases es)
    case None
    then show ?thesis by (simp add: set_getIds_unfold)
  next
    case (Some cs)
    show ?thesis
    proof (cases "l = L")
      case True
      with Some show ?thesis by (simp add: set_getIds_unfold)
    next
      case False
      with 1(2) have lt: "l + 1 \<le> L" by simp
      have "\<And>c. c \<in> set cs \<Longrightarrow> set (getIds c [] L (l + 1)) = ids_within (nat (L - l) - 1) c"
      proof -
        fix c assume c: "c \<in> set cs"
        have "set (getIds c [] L (l + 1)) = ids_within (nat (L - (l + 1))) c"
          by (rule "1.IH"[OF Some c lt])
        moreover have "nat (L - (l + 1)) = nat (L - l) - 1" by simp
        ultimately show "set (getIds c [] L (l + 1)) = ids_within (nat (L - l) - 1) c" by simp
      qed
      with Some False lt show ?thesis by (simp add: set_getIds_unfold)
    qed
  qed
qed

lemma root_in_ids_within: "id_e e \<in> ids_within d e"
  by (cases e) simp

lemma ids_within_mono: "d \<le> d' \<Longrightarrow> ids_within d e \<subseteq> ids_within d' e"
proof (induction e arbitrary: d d' rule: all_ids.induct)
  case (1 i n es)
  show ?case
  proof (cases es)
    case None
    then show ?thesis by simp
  next
    case (Some cs)
    show ?thesis
    proof (cases "d = 0")
      case True
      with Some show ?thesis by auto
    next
      case False
      with 1(2) have le: "d - 1 \<le> d' - 1" and pos: "d' \<noteq> 0" by simp_all
      have "\<And>c. c \<in> set cs \<Longrightarrow> ids_within (d - 1) c \<subseteq> ids_within (d' - 1) c"
        by (rule "1.IH"[OF Some _ le])
      with Some False pos show ?thesis by auto
    qed
  qed
qed

lemma le_fold_max: "(x::nat) \<in> set ns \<Longrightarrow> x \<le> fold max ns a"
proof (induction ns arbitrary: a)
  case Nil
  then show ?case by simp
next
  case (Cons n ns)
  have mono: "\<And>b. b \<le> fold max ns b"
  proof -
    fix b show "b \<le> fold max ns b"
    proof (induction ns arbitrary: b)
      case Nil show ?case by simp
    next
      case (Cons m ms)
      have "max m b \<le> fold max ms (max m b)" by (rule Cons.IH)
      then show ?case by simp
    qed
  qed
  show ?case
  proof (cases "x = n")
    case True
    have "max n a \<le> fold max ns (max n a)" by (rule mono)
    with True show ?thesis by simp
  next
    case False
    with Cons.prems have "x \<in> set ns" by simp
    then have "x \<le> fold max ns (max n a)" by (rule Cons.IH)
    then show ?thesis by simp
  qed
qed

lemma ids_within_all:
  "height e \<le> d \<Longrightarrow> ids_within d e = set (all_ids e)"
proof (induction e arbitrary: d rule: all_ids.induct)
  case (1 i n es)
  show ?case
  proof (cases es)
    case None
    then show ?thesis by simp
  next
    case (Some cs)
    show ?thesis
    proof (cases "cs = []")
      case True
      with Some show ?thesis by simp
    next
      case False
      with Some 1(2) have hd: "Suc (fold max (map height cs) 0) \<le> d" by simp
      then have pos: "d \<noteq> 0" by simp
      have "\<And>c. c \<in> set cs \<Longrightarrow> ids_within (d - 1) c = set (all_ids c)"
      proof -
        fix c assume c: "c \<in> set cs"
        then have "height c \<in> set (map height cs)" by simp
        then have "height c \<le> fold max (map height cs) 0" by (rule le_fold_max)
        with hd have "height c \<le> d - 1" by simp
        then show "ids_within (d - 1) c = set (all_ids c)" by (rule "1.IH"[OF Some c])
      qed
      with Some pos show ?thesis by simp
    qed
  qed
qed

lemma subseq_concat_map:
  "(\<And>c. c \<in> set cs \<Longrightarrow> subseq (f c) (g c)) \<Longrightarrow> subseq (concat (map f cs)) (concat (map g cs))"
proof (induction cs)
  case Nil
  show ?case by simp
next
  case (Cons c cs)
  have "subseq (f c) (g c)" by (rule Cons.prems) simp
  moreover have "subseq (concat (map f cs)) (concat (map g cs))"
    by (rule Cons.IH) (rule Cons.prems, simp)
  ultimately show ?case by (simp add: list_emb_append_mono)
qed

lemma getIds_subseq: "subseq (getIds e [] L l) (all_ids e)"
proof (induction e arbitrary: l rule: all_ids.induct)
  case (1 i n es)
  show ?case
  proof (cases es)
    case None
    then show ?thesis by (simp add: getIds_unfold)
  next
    case (Some cs)
    have "subseq (concat (map (\<lambda>c. getIds c [] L (l + 1)) cs)) (concat (map all_ids cs))"
      by (rule subseq_concat_map) (rule "1.IH"[OF Some])
    with Some show ?thesis by (simp add: getIds_unfold)
  qed
qed

lemma getIds_leaf: "children e = [] \<Longrightarrow> getIds e [] L l = [id_e e]"
  by (cases e) (auto simp: children_def getIds_unfold split: option.splits)

lemma getIds_one_level: "getIds e [] 1 0 = id_e e # map id_e (children e)"
proof (cases e)
  case (Entity i n es)
  have "\<And>c. getIds c [] 1 1 = [id_e c]"
  proof -
    fix c show "getIds c [] 1 1 = [id_e c]"
      by (cases c) (simp add: getIds_unfold split: option.splits)
  qed
  then have "\<And>cs. concat (map (\<lambda>c. getIds c [] 1 (0 + 1)) cs) = map id_e cs"
    by (induct_tac cs) simp_all
  with Entity show ?thesis
    by (simp add: getIds_unfold children_def split: option.splits)
qed

lemma indexOf_iff:
  "indexOf (Some xs) v \<noteq> -1 \<longleftrightarrow> (\<exists>x. v = Some x \<and> x \<in> set xs)"
  by (cases v) (simp_all add: indexOf_def indexOf_list_found)

lemma intersection_iff:
  "intersection xs a \<noteq> [] \<longleftrightarrow> (\<exists>ys. a = Some ys \<and> (\<exists>x \<in> set ys. x \<in> set xs))"
  by (cases a) (simp_all add: intersection_undefined intersection_nonempty)

lemma BELONGS_TO_ENTITY_resolved:
  assumes "resolved_ids sub rule = Some ids"
  shows "BELONGS_TO_ENTITY user sub rule = Inr (id_e (entity_u user) \<in> set ids)"
  using assms
  by (auto simp: resolved_ids_def BELONGS_TO_ENTITY_def truthy_def or_js_def indexOf_def
        indexOf_list_found Let_def
      split: if_splits option.splits)

lemma entityMembership_resolved:
  assumes "resolved_ids sub rule = Some ids"
  shows "entityMembership uids sub rule = Inr (\<exists>x \<in> set ids. x \<in> set uids)"
  using assms
  by (auto simp: resolved_ids_def entityMembership_def truthy_def or_js_def indexOf_iff
        intersection_iff Let_def
      split: if_splits option.splits)

lemma tree_membership:
  assumes "resolved_ids sub rule = Some ids" and "0 \<le> L"
  shows "(case BELONGS_TO_ENTITY user sub rule of
            Inl e \<Rightarrow> Inl e
          | Inr True \<Rightarrow> Inr True
          | Inr False \<Rightarrow> entityMembership (getIds (entity_u user) [] L 0) sub rule)
         = Inr (\<exists>x \<in> set ids. x \<in> ids_within (nat L) (entity_u user))"
proof -
  have w: "set (getIds (entity_u user) [] L 0) = ids_within (nat L) (entity_u user)"
    using set_getIds_within[of 0 L "entity_u user"] assms(2) by simp
  have root: "id_e (entity_u user) \<in> ids_within (nat L) (entity_u user)"
    by (rule root_in_ids_within)
  show ?thesis
  proof (cases "id_e (entity_u user) \<in> set ids")
    case True
    with root have "\<exists>x \<in> set ids. x \<in> ids_within (nat L) (entity_u user)" by blast
    with True show ?thesis by (simp add: BELONGS_TO_ENTITY_resolved[OF assms(1)])
  next
    case False
    then show ?thesis
      by (simp add: BELONGS_TO_ENTITY_resolved[OF assms(1)] entityMembership_resolved[OF assms(1)] w)
  qed
qed

lemma leaf_within_chain: "''leaf'' \<in> ids_within d (chain n) \<longleftrightarrow> n \<le> d"
proof (induction n arbitrary: d)
  case 0
  show ?case by simp
next
  case (Suc n)
  show ?case
  proof (cases d)
    case 0
    then show ?thesis by simp
  next
    case (Suc d')
    with Suc.IH[of d'] show ?thesis by simp
  qed
qed

lemma leaf_in_chain: "''leaf'' \<in> set (all_ids (chain n))"
  by (induction n) simp_all

lemma id_chain: "n \<noteq> 0 \<Longrightarrow> id_e (chain n) = ''node''"
  by (cases n) simp_all

text \<open>
  Claim C1, as amended. For a subject whose entity ids resolve,
  \<open>BELONGS_TO_ENTITY_TREE\<close> returns true exactly when one of the resolved ids is the id
  of a node at most 10000 levels below the user's entity, that entity included; when the
  tree is at most 10000 levels high, these are the ids of the whole subtree.
\<close>

theorem BELONGS_TO_ENTITY_TREE_depth_10000:
  assumes "resolved_ids sub rule = Some ids"
  shows "BELONGS_TO_ENTITY_TREE user sub rule
           = Inr (\<exists>x \<in> set ids. x \<in> ids_within 10000 (entity_u user))
         \<and> (height (entity_u user) \<le> 10000
              \<longrightarrow> ids_within 10000 (entity_u user) = set (all_ids (entity_u user)))"
proof
  show "BELONGS_TO_ENTITY_TREE user sub rule
           = Inr (\<exists>x \<in> set ids. x \<in> ids_within 10000 (entity_u user))"
    unfolding BELONGS_TO_ENTITY_TREE_def
    using tree_membership[OF assms, of 10000 user] by simp
  show "height (entity_u user) \<le> 10000
          \<longrightarrow> ids_within 10000 (entity_u user) = set (all_ids (entity_u user))"
    by (simp add: ids_within_all)
qed

text \<open>The theorem at the manager of CVS and the patients of HTA1 and of SE1.\<close>

theorem BELONGS_TO_ENTITY_TREE_depth_10000_witness:
  "BELONGS_TO_ENTITY_TREE managerForCVS patientHTA1 \<lparr>subject = ''Patient''\<rparr> = Inr True
   \<and> BELONGS_TO_ENTITY_TREE managerForCVS patientSE1 \<lparr>subject = ''Patient''\<rparr> = Inr False
   \<and> ids_within 10000 CVS = {''cvs'', ''hta1'', ''hta2''}
   \<and> set (all_ids CVS) = {''cvs'', ''hta1'', ''hta2''}"
  using BELONGS_TO_ENTITY_TREE_depth_10000[of patientHTA1 "\<lparr>subject = ''Patient''\<rparr>" "[''hta1'']" managerForCVS]
    BELONGS_TO_ENTITY_TREE_depth_10000[of patientSE1 "\<lparr>subject = ''Patient''\<rparr>" "[''se1'']" managerForCVS]
  by (simp add: resolved_ids_def truthy_def patientHTA1_def patientSE1_def no_fields_def
        managerForCVS_def CVS_def HTA1_def HTA2_def)

text \<open>
  Claim C1 as stated fails: the walk stops 10000 levels down, so the entity at level 10001
  of the subtree is not found.
\<close>

theorem BELONGS_TO_ENTITY_TREE_unbounded_counterexample:
  "BELONGS_TO_ENTITY_TREE deep_admin leaf_user \<lparr>subject = ''User''\<rparr> = Inr False
   \<and> ''leaf'' \<in> set (all_ids (entity_u deep_admin))"
proof -
  have r: "resolved_ids leaf_user \<lparr>subject = ''User''\<rparr> = Some [''leaf'']"
    by (simp add: resolved_ids_def leaf_user_def no_fields_def truthy_def)
  have "BELONGS_TO_ENTITY_TREE deep_admin leaf_user \<lparr>subject = ''User''\<rparr>
        = Inr (\<exists>x \<in> set [''leaf'']. x \<in> ids_within 10000 (entity_u deep_admin))"
    unfolding BELONGS_TO_ENTITY_TREE_def
    using tree_membership[OF r, of 10000 deep_admin] by simp
  then show ?thesis
    by (simp add: deep_admin_def leaf_within_chain leaf_in_chain)
qed

subsection \<open>Widening of the entity scopes\<close>

lemma entityMembership_mono:
  assumes "set xs \<subseteq> set ys" and "entityMembership xs sub rule = Inr True"
  shows "entityMembership ys sub rule = Inr True"
  using assms
  by (auto simp: entityMembership_def indexOf_iff intersection_iff Let_def
      split: if_splits option.splits)

lemma one_level_in_tree:
  "set (getIds e [] 1 0) \<subseteq> set (getIds e [] 10000 0)"
proof -
  have "ids_within (nat 1) e \<subseteq> ids_within (nat 10000) e"
    by (rule ids_within_mono) simp
  then show ?thesis
    using set_getIds_within[of 0 1 e] set_getIds_within[of 0 10000 e] by simp
qed

text \<open>
  Claim C5. Whenever \<open>BELONGS_TO_SUB_ENTITIES\<close> returns true so does
  \<open>BELONGS_TO_ENTITY_TREE\<close>, and whenever \<open>BELONGS_TO_ENTITY\<close> returns true so do
  both.
\<close>

theorem entity_scopes_widen:
  "(BELONGS_TO_SUB_ENTITIES user sub rule = Inr True
      \<longrightarrow> BELONGS_TO_ENTITY_TREE user sub rule = Inr True)
   \<and> (BELONGS_TO_ENTITY user sub rule = Inr True
      \<longrightarrow> BELONGS_TO_SUB_ENTITIES user sub rule = Inr True
          \<and> BELONGS_TO_ENTITY_TREE user sub rule = Inr True)"
proof (intro conjI impI)
  assume "BELONGS_TO_ENTITY user sub rule = Inr True"
  then show "BELONGS_TO_SUB_ENTITIES user sub rule = Inr True"
    and "BELONGS_TO_ENTITY_TREE user sub rule = Inr True"
    by (simp_all add: BELONGS_TO_SUB_ENTITIES_def BELONGS_TO_ENTITY_TREE_def)
next
  assume sub: "BELONGS_TO_SUB_ENTITIES user sub rule = Inr True"
  show "BELONGS_TO_ENTITY_TREE user sub rule = Inr True"
  proof (cases "BELONGS_TO_ENTITY user sub rule")
    case (Inl e)
    with sub show ?thesis by (simp add: BELONGS_TO_SUB_ENTITIES_def)
  next
    case (Inr b)
    show ?thesis
    proof (cases b)
      case True
      with Inr show ?thesis by (simp add: BELONGS_TO_ENTITY_TREE_def)
    next
      case False
      with Inr sub have "entityMembership (getIds (entity_u user) [] 1 0) sub rule = Inr True"
        by (simp add: BELONGS_TO_SUB_ENTITIES_def)
      with one_level_in_tree have "entityMembership (getIds (entity_u user) [] 10000 0) sub rule = Inr True"
        by (rule entityMembership_mono)
      with Inr False show ?thesis by (simp add: BELONGS_TO_ENTITY_TREE_def)
    qed
  qed
qed

lemma sample_ENTITY:
  "BELONGS_TO_ENTITY nurseHTA1 patientHTA1 \<lparr>subject = ''Patient''\<rparr> = Inr True"
  by (simp add: BELONGS_TO_ENTITY_def nurseHTA1_def patientHTA1_def no_fields_def HTA1_def
      truthy_def indexOf_def)

lemma sample_SUB:
  "BELONGS_TO_SUB_ENTITIES managerForCVS patientHTA1 \<lparr>subject = ''Patient''\<rparr> = Inr True"
  by (simp add: BELONGS_TO_SUB_ENTITIES_def BELONGS_TO_ENTITY_def entityMembership_def
      managerForCVS_def patientHTA1_def no_fields_def CVS_def HTA1_def HTA2_def
      truthy_def indexOf_def intersection_def getIds_eq)

text \<open>The theorem at the manager of CVS and at the nurse of HTA1, for the patient of HTA1.\<close>

theorem entity_scopes_widen_witness:
  "BELONGS_TO_SUB_ENTITIES managerForCVS patientHTA1 \<lparr>subject = ''Patient''\<rparr> = Inr True
   \<and> BELONGS_TO_ENTITY_TREE managerForCVS patientHTA1 \<lparr>subject = ''Patient''\<rparr> = Inr True
   \<and> BELONGS_TO_ENTITY nurseHTA1 patientHTA1 \<lparr>subject = ''Patient''\<rparr> = Inr True
   \<and> BELONGS_TO_SUB_ENTITIES nurseHTA1 patientHTA1 \<lparr>subject = ''Patient''\<rparr> = Inr True
   \<and> BELONGS_TO_ENTITY_TREE nurseHTA1 patientHTA1 \<lparr>subject = ''Patient''\<rparr> = Inr True"
  using entity_scopes_widen[of managerForCVS patientHTA1 "\<lparr>subject = ''Patient''\<rparr>"]
    entity_scopes_widen[of nurseHTA1 patientHTA1 "\<lparr>subject = ''Patient''\<rparr>"]
    sample_ENTITY sample_SUB
  by simp

subsection \<open>Unsupported subject types\<close>

text \<open>
  Claim C7. For a subject type name other than \<open>User\<close>, \<open>Entity\<close> and
  \<open>Patient\<close>, each of the three entity-membership predicates raises the
  unsupported-subject error; none returns a boolean.
\<close>

theorem unsupported_subject_is_fatal:
  assumes "subject rule \<notin> {''User'', ''Entity'', ''Patient''}"
  shows "BELONGS_TO_ENTITY user sub rule = Inl (UnsupportedSubject (subject rule))
         \<and> BELONGS_TO_SUB_ENTITIES user sub rule = Inl (UnsupportedSubject (subject rule))
         \<and> BELONGS_TO_ENTITY_TREE user sub rule = Inl (UnsupportedSubject (subject rule))"
  using assms
  by (simp add: BELONGS_TO_ENTITY_def BELONGS_TO_SUB_ENTITIES_def BELONGS_TO_ENTITY_TREE_def)

text \<open>The theorem at the subject type name \<open>Device\<close>.\<close>

theorem unsupported_subject_is_fatal_witness:
  "BELONGS_TO_ENTITY nurseHTA1 patientHTA1 \<lparr>subject = ''Device''\<rparr> = Inl (UnsupportedSubject ''Device'')
   \<and> BELONGS_TO_SUB_ENTITIES nurseHTA1 patientHTA1 \<lparr>subject = ''Device''\<rparr> = Inl (UnsupportedSubject ''Device'')
   \<and> BELONGS_TO_ENTITY_TREE nurseHTA1 patientHTA1 \<lparr>subject = ''Device''\<rparr> = Inl (UnsupportedSubject ''Device'')"
  using unsupported_subject_is_fatal[of "\<lparr>subject = ''Device''\<rparr>" nurseHTA1 patientHTA1]
  by simp

subsection \<open>The caregiver scopes\<close>

text \<open>
  Claim C9. Whenever \<open>IS_PRIMARY_CAREGIVER\<close> returns true, so does \<open>IS_CAREGIVER\<close>.
\<close>

theorem primary_caregiver_is_caregiver:
  "IS_PRIMARY_CAREGIVER user patient rule = Inr True \<Longrightarrow> IS_CAREGIVER user patient rule = Inr True"
  by (simp add: IS_CAREGIVER_def)

text \<open>The theorem at the nurse of HTA1 and the patient in her care.\<close>

theorem primary_caregiver_is_caregiver_witness:
  "IS_PRIMARY_CAREGIVER nurseHTA1 patientHTA1 \<lparr>subject = ''Patient''\<rparr> = Inr True
   \<and> IS_CAREGIVER nurseHTA1 patientHTA1 \<lparr>subject = ''Patient''\<rparr> = Inr True"
proof -
  have p: "IS_PRIMARY_CAREGIVER nurseHTA1 patientHTA1 \<lparr>subject = ''Patient''\<rparr> = Inr True"
    by (simp add: IS_PRIMARY_CAREGIVER_def nurseHTA1_def patientHTA1_def no_fields_def)
  show ?thesis using p primary_caregiver_is_caregiver[OF p] by simp
qed

text \<open>
  Claim C10. \<open>IS_PRIMARY_CAREGIVER\<close> and \<open>IS_CAREGIVER\<close> return a boolean for
  every user, subject and rule, whatever the subject type name, and the boolean depends
  only on \<open>user.id\<close>, \<open>subject.caregiverId\<close> and \<open>subject.caregiverIds\<close>.
\<close>

theorem caregiver_scopes_total:
  "(\<exists>b. IS_PRIMARY_CAREGIVER user sub rule = Inr b)
   \<and> (\<exists>b. IS_CAREGIVER user sub rule = Inr b)
   \<and> (id_u user = id_u user' \<and> caregiverId sub = caregiverId sub'
        \<and> caregiverIds sub = caregiverIds sub'
      \<longrightarrow> IS_PRIMARY_CAREGIVER user sub rule = IS_PRIMARY_CAREGIVER user' sub' rule'
          \<and> IS_CAREGIVER user sub rule = IS_CAREGIVER user' sub' rule')"
  by (auto simp: IS_PRIMARY_CAREGIVER_def IS_CAREGIVER_def split: option.splits bool.splits)

text \<open>
  The theorem at two calls that agree on the three fields and differ in the user's
  entity, the subject's entity ids and the subject type name.
\<close>

theorem caregiver_scopes_total_witness:
  "IS_PRIMARY_CAREGIVER nurseHTA1 patientHTA1 \<lparr>subject = ''Patient''\<rparr>
     = IS_PRIMARY_CAREGIVER (nurseHTA1\<lparr>entity_u := SE1\<rparr>) (patientHTA1\<lparr>entityIds := None\<rparr>) \<lparr>subject = ''Device''\<rparr>
   \<and> IS_CAREGIVER nurseHTA1 patientHTA1 \<lparr>subject = ''Patient''\<rparr>
     = IS_CAREGIVER (nurseHTA1\<lparr>entity_u := SE1\<rparr>) (patientHTA1\<lparr>entityIds := None\<rparr>) \<lparr>subject = ''Device''\<rparr>"
  using caregiver_scopes_total[of nurseHTA1 patientHTA1 "\<lparr>subject = ''Patient''\<rparr>"
      "nurseHTA1\<lparr>entity_u := SE1\<rparr>" "patientHTA1\<lparr>entityIds := None\<rparr>" "\<lparr>subject = ''Device''\<rparr>"]
  by simp

subsection \<open>What the walker collects\<close>

lemma subseq_distinct: "subseq xs ys \<Longrightarrow> distinct ys \<Longrightarrow> distinct xs"
  by (rule subseqs_distinctD[of xs ys]) simp_all

text \<open>
  Claim C8, as amended. For every entity and every \<open>levels\<close>, the array that
  \<open>_getIds\<close> fills from the empty array at level 0 contains the root's id; it has no
  duplicates when no two nodes of the tree have the same id; for an entity with no
  children it is the root's id alone; and with \<open>levels = 1\<close> it is the root's id
  followed by the ids of the root's children.
\<close>

theorem getIds_collects:
  "id_e e \<in> set (getIds e [] levels 0)
   \<and> (distinct (all_ids e) \<longrightarrow> distinct (getIds e [] levels 0))
   \<and> (children e = [] \<longrightarrow> getIds e [] levels 0 = [id_e e])
   \<and> getIds e [] 1 0 = id_e e # map id_e (children e)"
proof (intro conjI impI)
  show "id_e e \<in> set (getIds e [] levels 0)"
    by (cases e) (simp add: getIds_unfold)
  show "distinct (getIds e [] levels 0)" if "distinct (all_ids e)"
    using getIds_subseq that by (rule subseq_distinct)
  show "getIds e [] levels 0 = [id_e e]" if "children e = []"
    using that by (rule getIds_leaf)
  show "getIds e [] 1 0 = id_e e # map id_e (children e)"
    by (rule getIds_one_level)
qed

text \<open>The theorem at the hierarchy of the tests.\<close>

theorem getIds_collects_witness:
  "''sm'' \<in> set (getIds SmartMonitor [] 10000 0)
   \<and> distinct (getIds SmartMonitor [] 10000 0)
   \<and> getIds HTA1 [] 7 0 = [''hta1'']
   \<and> getIds SmartMonitor [] 1 0 = [''sm'', ''cvs'', ''cvsp'']"
  using getIds_collects[of SmartMonitor 10000] getIds_collects[of HTA1 7]
  by (simp add: SmartMonitor_def CVS_def CVSPilot_def HTA1_def HTA2_def SE1_def SE2_def
      children_def getIds_eq)

text \<open>
  Claim C8 as stated fails: nothing removes duplicates, so an id that two nodes share is
  collected twice.
\<close>

theorem getIds_duplicates_counterexample:
  "getIds twins [] 1 0 = [''a'', ''a''] \<and> \<not> distinct (getIds twins [] 1 0)"
  by (simp add: twins_def getIds_eq)

subsection \<open>Absent fields\<close>

lemma resolved_ids_defined:
  assumes "subject rule \<in> {''Entity'', ''Patient''}
           \<or> (subject rule = ''User'' \<and> (truthy (entityId sub) \<or> entity_s sub \<noteq> None))"
  shows "\<exists>ids. resolved_ids sub rule = Some ids"
  using assms
  by (auto simp: resolved_ids_def truthy_def split: option.splits)

lemma resolved_ids_absent:
  assumes "(subject rule = ''Patient'' \<and> \<not> truthy (entityId sub) \<and> entityIds sub = None)
           \<or> (subject rule = ''Entity'' \<and> \<not> truthy (entityId sub) \<and> id_s sub = None)"
  shows "resolved_ids sub rule = Some []"
  using assms
  by (auto simp: resolved_ids_def or_js_def)

lemma scopes_of_resolved:
  assumes "resolved_ids sub rule = Some ids"
  shows "BELONGS_TO_ENTITY user sub rule = Inr (id_e (entity_u user) \<in> set ids)"
    and "BELONGS_TO_SUB_ENTITIES user sub rule
           = Inr (\<exists>x \<in> set ids. x \<in> ids_within 1 (entity_u user))"
    and "BELONGS_TO_ENTITY_TREE user sub rule
           = Inr (\<exists>x \<in> set ids. x \<in> ids_within 10000 (entity_u user))"
proof -
  show "BELONGS_TO_ENTITY user sub rule = Inr (id_e (entity_u user) \<in> set ids)"
    using assms by (rule BELONGS_TO_ENTITY_resolved)
  show "BELONGS_TO_SUB_ENTITIES user sub rule
           = Inr (\<exists>x \<in> set ids. x \<in> ids_within 1 (entity_u user))"
    unfolding BELONGS_TO_SUB_ENTITIES_def
    using tree_membership[OF assms, of 1 user] by simp
  show "BELONGS_TO_ENTITY_TREE user sub rule
           = Inr (\<exists>x \<in> set ids. x \<in> ids_within 10000 (entity_u user))"
    unfolding BELONGS_TO_ENTITY_TREE_def
    using tree_membership[OF assms, of 10000 user] by simp
qed

text \<open>
  Claim C4, as amended. With \<open>caregiverIds\<close> absent, \<open>IS_CAREGIVER\<close> returns
  whether the user is the primary caregiver, so false when \<open>caregiverId\<close> is absent
  too. For a \<open>Patient\<close> with neither \<open>entityId\<close> nor \<open>entityIds\<close>, and for an
  \<open>Entity\<close> with neither \<open>entityId\<close> nor \<open>id\<close>, the three entity-membership
  predicates return false. They return a boolean, never an error, for every
  \<open>Entity\<close> and \<open>Patient\<close> subject, and for every \<open>User\<close> subject that has
  an \<open>entityId\<close> or an \<open>entity\<close>.
\<close>

theorem absent_relation_is_false:
  "(caregiverIds sub = None
      \<longrightarrow> IS_CAREGIVER user sub rule = Inr (caregiverId sub = Some (id_u user)))
   \<and> ((subject rule = ''Patient'' \<and> \<not> truthy (entityId sub) \<and> entityIds sub = None)
       \<or> (subject rule = ''Entity'' \<and> \<not> truthy (entityId sub) \<and> id_s sub = None)
      \<longrightarrow> BELONGS_TO_ENTITY user sub rule = Inr False
          \<and> BELONGS_TO_SUB_ENTITIES user sub rule = Inr False
          \<and> BELONGS_TO_ENTITY_TREE user sub rule = Inr False)
   \<and> (subject rule \<in> {''Entity'', ''Patient''}
       \<or> (subject rule = ''User'' \<and> (truthy (entityId sub) \<or> entity_s sub \<noteq> None))
      \<longrightarrow> (\<exists>b. BELONGS_TO_ENTITY user sub rule = Inr b)
          \<and> (\<exists>b. BELONGS_TO_SUB_ENTITIES user sub rule = Inr b)
          \<and> (\<exists>b. BELONGS_TO_ENTITY_TREE user sub rule = Inr b))"
proof (intro conjI impI)
  show "IS_CAREGIVER user sub rule = Inr (caregiverId sub = Some (id_u user))"
    if "caregiverIds sub = None"
    using that by (auto simp: IS_CAREGIVER_def IS_PRIMARY_CAREGIVER_def split: bool.splits)
next
  assume "(subject rule = ''Patient'' \<and> \<not> truthy (entityId sub) \<and> entityIds sub = None)
           \<or> (subject rule = ''Entity'' \<and> \<not> truthy (entityId sub) \<and> id_s sub = None)"
  then have r: "resolved_ids sub rule = Some []" by (rule resolved_ids_absent)
  show "BELONGS_TO_ENTITY user sub rule = Inr False"
    and "BELONGS_TO_SUB_ENTITIES user sub rule = Inr False"
    and "BELONGS_TO_ENTITY_TREE user sub rule = Inr False"
    using scopes_of_resolved[OF r, of user] by simp_all
next
  assume "subject rule \<in> {''Entity'', ''Patient''}
       \<or> (subject rule = ''User'' \<and> (truthy (entityId sub) \<or> entity_s sub \<noteq> None))"
  then obtain ids where r: "resolved_ids sub rule = Some ids"
    using resolved_ids_defined by blast
  show "\<exists>b. BELONGS_TO_ENTITY user sub rule = Inr b"
    and "\<exists>b. BELONGS_TO_SUB_ENTITIES user sub rule = Inr b"
    and "\<exists>b. BELONGS_TO_ENTITY_TREE user sub rule = Inr b"
    using scopes_of_resolved[OF r, of user] by simp_all
qed

text \<open>
  The theorem at a subject with no fields, as a \<open>Patient\<close> and as an \<open>Entity\<close>,
  and at a \<open>User\<close> subject with an \<open>entity\<close> and no \<open>entityId\<close>.
\<close>

theorem absent_relation_is_false_witness:
  "IS_CAREGIVER nurseHTA1 no_fields \<lparr>subject = ''Patient''\<rparr> = Inr False
   \<and> BELONGS_TO_ENTITY nurseHTA1 no_fields \<lparr>subject = ''Patient''\<rparr> = Inr False
   \<and> BELONGS_TO_SUB_ENTITIES nurseHTA1 no_fields \<lparr>subject = ''Patient''\<rparr> = Inr False
   \<and> BELONGS_TO_ENTITY_TREE nurseHTA1 no_fields \<lparr>subject = ''Patient''\<rparr> = Inr False
   \<and> BELONGS_TO_ENTITY nurseHTA1 no_fields \<lparr>subject = ''Entity''\<rparr> = Inr False
   \<and> BELONGS_TO_SUB_ENTITIES nurseHTA1 no_fields \<lparr>subject = ''Entity''\<rparr> = Inr False
   \<and> BELONGS_TO_ENTITY_TREE nurseHTA1 no_fields \<lparr>subject = ''Entity''\<rparr> = Inr False
   \<and> (\<exists>b. BELONGS_TO_ENTITY_TREE nurseHTA1 (no_fields\<lparr>entity_s := Some SE1\<rparr>) \<lparr>subject = ''User''\<rparr> = Inr b)"
  using absent_relation_is_false[of no_fields nurseHTA1 "\<lparr>subject = ''Patient''\<rparr>"]
    absent_relation_is_false[of no_fields nurseHTA1 "\<lparr>subject = ''Entity''\<rparr>"]
    absent_relation_is_false[of "no_fields\<lparr>entity_s := Some SE1\<rparr>" nurseHTA1 "\<lparr>subject = ''User''\<rparr>"]
  by (simp add: no_fields_def truthy_def nurseHTA1_def)

text \<open>
  Claim C4 as stated fails: for a \<open>User\<close> subject with neither \<open>entityId\<close> nor
  \<open>entity\<close>, reading \<open>subject.entity.id\<close> is a \<open>TypeError\<close>.
\<close>

theorem absent_entity_counterexample:
  "BELONGS_TO_ENTITY nurseHTA1 no_fields \<lparr>subject = ''User''\<rparr> = Inl TypeError
   \<and> BELONGS_TO_SUB_ENTITIES nurseHTA1 no_fields \<lparr>subject = ''User''\<rparr> = Inl TypeError
   \<and> BELONGS_TO_ENTITY_TREE nurseHTA1 no_fields \<lparr>subject = ''User''\<rparr> = Inl TypeError"
  by (simp add: BELONGS_TO_ENTITY_def BELONGS_TO_SUB_ENTITIES_def BELONGS_TO_ENTITY_TREE_def
      no_fields_def truthy_def)

subsection \<open>The expectations of the tests\<close>

text \<open>
  The scope functions return what src/t/test-changes.js expects of the permissions that
  are scoped by them.
\<close>

lemmas sample_defs =
  HTA1_def HTA2_def SE1_def SE2_def CVS_def CVSPilot_def SmartMonitor_def no_fields_def
  patientHTA1_def patientSE1_def nurseHTA1_def managerForCVS_def entityAdminForSM_def
  entity_subject_def user_subject_def

lemmas scope_defs =
  IS_PRIMARY_CAREGIVER_def IS_CAREGIVER_def BELONGS_TO_ENTITY_def BELONGS_TO_SUB_ENTITIES_def
  entityMembership_def truthy_def or_js_def indexOf_def intersection_def getIds_eq

lemma test_expectations:
  "BELONGS_TO_SUB_ENTITIES nurseHTA1 patientHTA1 \<lparr>subject = ''Patient''\<rparr> = Inr True"
  "BELONGS_TO_SUB_ENTITIES nurseHTA1 patientSE1 \<lparr>subject = ''Patient''\<rparr> = Inr False"
  "IS_CAREGIVER nurseHTA1 patientHTA1 \<lparr>subject = ''Patient''\<rparr> = Inr True"
  "IS_CAREGIVER nurseHTA1 patientSE1 \<lparr>subject = ''Patient''\<rparr> = Inr False"
  "BELONGS_TO_SUB_ENTITIES managerForCVS patientHTA1 \<lparr>subject = ''Patient''\<rparr> = Inr True"
  "BELONGS_TO_SUB_ENTITIES managerForCVS patientSE1 \<lparr>subject = ''Patient''\<rparr> = Inr False"
  "BELONGS_TO_SUB_ENTITIES entityAdminForSM (entity_subject SmartMonitor) \<lparr>subject = ''Entity''\<rparr> = Inr True"
  "BELONGS_TO_SUB_ENTITIES entityAdminForSM (entity_subject CVS) \<lparr>subject = ''Entity''\<rparr> = Inr True"
  "BELONGS_TO_SUB_ENTITIES entityAdminForSM (entity_subject HTA1) \<lparr>subject = ''Entity''\<rparr> = Inr False"
  "BELONGS_TO_SUB_ENTITIES entityAdminForSM (user_subject nurseHTA1) \<lparr>subject = ''User''\<rparr> = Inr False"
  "BELONGS_TO_SUB_ENTITIES entityAdminForSM (no_fields\<lparr>entityId := Some ''cvs''\<rparr>) \<lparr>subject = ''User''\<rparr> = Inr True"
  "BELONGS_TO_SUB_ENTITIES entityAdminForSM (no_fields\<lparr>entityId := Some ''hta1''\<rparr>) \<lparr>subject = ''User''\<rparr> = Inr False"
  by (simp_all add: sample_defs scope_defs)

subsection \<open>Template resolution\<close>

lemma reviver_string:
  "reviver get vars (JStr s) = substitute get vars (JStr s)"
  by (cases s) (auto simp: reviver_def split: option.splits)

lemma reviver_array:
  assumes "\<forall>y \<in> set ys. y \<noteq> JStr ''$''"
  shows "reviver get vars (JArr ys) = Inr (JArr ys)"
  using assms by (cases ys) (simp_all add: reviver_def)

lemma reviver_object:
  assumes "\<forall>kv \<in> set kws. snd kv \<noteq> JStr ''$''"
  shows "reviver get vars (JObj kws) = Inr (JObj kws)"
proof -
  have "map_of kws ''0'' \<noteq> Some (JStr ''$'')"
  proof
    assume "map_of kws ''0'' = Some (JStr ''$'')"
    then have "(''0'', JStr ''$'') \<in> set kws" by (rule map_of_SomeD)
    with assms show False by force
  qed
  then show ?thesis by (simp add: reviver_def)
qed

lemma substitute_not_dollar:
  assumes "substitute get vars x = Inr y"
    and "\<forall>n \<in> set (placeholders x). get vars (JStr n) \<noteq> Some (JStr ''$'')"
  shows "y \<noteq> JStr ''$''"
proof (cases x)
  case (JStr s)
  with assms show ?thesis
    by (cases s) (auto split: if_splits option.splits)
next
  case (JArr xs)
  with assms(1) show ?thesis by (cases "substitute_list get vars xs") auto
next
  case (JObj kvs)
  with assms(1) show ?thesis by (cases "substitute_fields get vars kvs") auto
qed (use assms(1) in auto)

lemma substitute_list_not_dollar:
  assumes "substitute_list get vars xs = Inr ys"
    and "\<forall>n \<in> set (concat (map placeholders xs)). get vars (JStr n) \<noteq> Some (JStr ''$'')"
  shows "\<forall>y \<in> set ys. y \<noteq> JStr ''$''"
  using assms
proof (induction xs arbitrary: ys)
  case Nil
  then show ?case by simp
next
  case (Cons x xs)
  from Cons.prems(1) obtain y ys' where y: "substitute get vars x = Inr y"
    and ys': "substitute_list get vars xs = Inr ys'" and eq: "ys = y # ys'"
    by (cases "substitute get vars x"; cases "substitute_list get vars xs") auto
  have "y \<noteq> JStr ''$''"
    using y Cons.prems(2) by (intro substitute_not_dollar[of get vars x y]) auto
  moreover have "\<forall>y \<in> set ys'. y \<noteq> JStr ''$''"
    using ys' Cons.prems(2) by (intro Cons.IH) auto
  ultimately show ?case using eq by simp
qed

lemma substitute_fields_not_dollar:
  assumes "substitute_fields get vars kvs = Inr kws"
    and "\<forall>n \<in> set (concat (map (\<lambda>kv. placeholders (snd kv)) kvs)).
           get vars (JStr n) \<noteq> Some (JStr ''$'')"
  shows "\<forall>kv \<in> set kws. snd kv \<noteq> JStr ''$''"
  using assms
proof (induction kvs arbitrary: kws)
  case Nil
  then show ?case by simp
next
  case (Cons kx kvs)
  obtain k x where kx: "kx = (k, x)" by (cases kx)
  from Cons.prems(1) kx obtain y kws' where y: "substitute get vars x = Inr y"
    and kws': "substitute_fields get vars kvs = Inr kws'" and eq: "kws = (k, y) # kws'"
    by (cases "substitute get vars x"; cases "substitute_fields get vars kvs") auto
  have "y \<noteq> JStr ''$''"
    using y Cons.prems(2) kx by (intro substitute_not_dollar[of get vars x y]) auto
  moreover have "\<forall>kv \<in> set kws'. snd kv \<noteq> JStr ''$''"
    using kws' Cons.prems(2) by (intro Cons.IH) auto
  ultimately show ?case using eq by simp
qed

lemma internalize_list_eq:
  assumes "\<And>x. x \<in> set xs \<Longrightarrow> internalize get vars x = substitute get vars x"
  shows "internalize_list get vars xs = substitute_list get vars xs"
  using assms
proof (induction xs)
  case Nil
  show ?case by simp
next
  case (Cons x xs)
  have "internalize get vars x = substitute get vars x" by (rule Cons.prems) simp
  moreover have "internalize_list get vars xs = substitute_list get vars xs"
    by (rule Cons.IH) (rule Cons.prems, simp)
  ultimately show ?case
    by (cases "substitute get vars x"; cases "substitute_list get vars xs") simp_all
qed

lemma internalize_fields_eq:
  assumes "\<And>k x. (k, x) \<in> set kvs \<Longrightarrow> internalize get vars x = substitute get vars x"
  shows "internalize_fields get vars kvs = substitute_fields get vars kvs"
  using assms
proof (induction kvs)
  case Nil
  show ?case by simp
next
  case (Cons kx kvs)
  obtain k x where kx: "kx = (k, x)" by (cases kx)
  have "internalize get vars x = substitute get vars x"
    by (rule Cons.prems[of k]) (simp add: kx)
  moreover have "internalize_fields get vars kvs = substitute_fields get vars kvs"
  proof (rule Cons.IH)
    fix k' x' assume "(k', x') \<in> set kvs"
    then have "(k', x') \<in> set (kx # kvs)" by simp
    then show "internalize get vars x' = substitute get vars x'" by (rule Cons.prems)
  qed
  ultimately show ?case using kx
    by (cases "substitute get vars x"; cases "substitute_fields get vars kvs") simp_all
qed

lemma internalize_substitute:
  assumes "no_null t"
    and "\<forall>n \<in> set (placeholders t). get vars (JStr n) \<noteq> Some (JStr ''$'')"
  shows "internalize get vars t = substitute get vars t"
  using assms
proof (induction t)
  case JNull
  then show ?case by simp
next
  case (JBool b)
  show ?case by (simp add: reviver_def)
next
  case (JNum n)
  show ?case by (simp add: reviver_def)
next
  case (JStr s)
  show ?case by (simp only: internalize.simps reviver_string)
next
  case (JArr xs)
  have elems: "\<And>x. x \<in> set xs \<Longrightarrow> internalize get vars x = substitute get vars x"
  proof -
    fix x assume x: "x \<in> set xs"
    with JArr.prems have "no_null x"
      and "\<forall>n \<in> set (placeholders x). get vars (JStr n) \<noteq> Some (JStr ''$'')"
      by (auto simp: list_all_iff)
    with x show "internalize get vars x = substitute get vars x" by (rule JArr.IH)
  qed
  have l: "internalize_list get vars xs = substitute_list get vars xs"
    using elems by (rule internalize_list_eq)
  show ?case
  proof (cases "substitute_list get vars xs")
    case (Inl e)
    with l show ?thesis by simp
  next
    case (Inr ys)
    have "\<forall>y \<in> set ys. y \<noteq> JStr ''$''"
      using Inr JArr.prems(2) by (intro substitute_list_not_dollar[of get vars xs ys]) auto
    then have "reviver get vars (JArr ys) = Inr (JArr ys)" by (rule reviver_array)
    with l Inr show ?thesis by simp
  qed
next
  case (JObj kvs)
  have elems: "\<And>k x. (k, x) \<in> set kvs \<Longrightarrow> internalize get vars x = substitute get vars x"
  proof -
    fix k x assume x: "(k, x) \<in> set kvs"
    with JObj.prems have "no_null x"
      and "\<forall>n \<in> set (placeholders x). get vars (JStr n) \<noteq> Some (JStr ''$'')"
      by (auto simp: list_all_iff)
    moreover have "x \<in> Basic_BNFs.snds (k, x)" by simp
    ultimately show "internalize get vars x = substitute get vars x"
      using x JObj.IH by blast
  qed
  have l: "internalize_fields get vars kvs = substitute_fields get vars kvs"
    using elems by (rule internalize_fields_eq)
  show ?case
  proof (cases "substitute_fields get vars kvs")
    case (Inl e)
    with l show ?thesis by simp
  next
    case (Inr kws)
    have "\<forall>kv \<in> set kws. snd kv \<noteq> JStr ''$''"
      using Inr JObj.prems(2) by (intro substitute_fields_not_dollar[of get vars kvs kws]) auto
    then have "reviver get vars (JObj kws) = Inr (JObj kws)" by (rule reviver_object)
    with l Inr show ?thesis by simp
  qed
qed

text \<open>
  Claim C3, as amended. For a template without \<open>null\<close>, none of whose placeholders
  resolves to the string \<open>$\<close>, \<open>resolveVariables\<close> returns the copy of the
  template in which every string whose first character is \<open>$\<close> is replaced by the
  value at the path spelled by its characters from the third to the last but one, fails
  when that value is undefined, and copies every other string and every number and
  boolean unchanged.
\<close>

theorem resolveVariables_substitutes:
  assumes "no_null template"
    and "\<forall>n \<in> set (placeholders template). get variables (JStr n) \<noteq> Some (JStr ''$'')"
  shows "resolveVariables get template variables = substitute get variables template"
  unfolding resolveVariables_def using assms by (rule internalize_substitute)

text \<open>The theorem at a template with the placeholder \<open>${user.id}\<close>.\<close>

theorem resolveVariables_substitutes_witness:
  "resolveVariables lodash_get sample_template (empty_heap, nurseHTA1)
     = Inr (JObj [(''ownerId'', JStr ''uid3''), (''kind'', JStr ''patient''),
                  (''limit'', JNum 5), (''tags'', JArr [JStr ''a'', JBool True])])"
  using resolveVariables_substitutes[of sample_template lodash_get "(empty_heap, nurseHTA1)"]
  by (simp add: sample_template_def user_json_def nurseHTA1_def)

text \<open>
  Claim C3 as stated fails: a string that starts with \<open>$\<close> and is not of the form
  \<open>${path}\<close> is not copied unchanged but taken for a placeholder.
\<close>

theorem resolveVariables_dollar_counterexample:
  "resolveVariables lodash_get (JStr ''$(user.id)'') (empty_heap, nurseHTA1) = Inr (JStr ''uid3'')"
  by (simp add: resolveVariables_def reviver_def user_json_def nurseHTA1_def)

subsection \<open>Decoration\<close>

lemma owner_resolve:
  "resolveVariables lodash_get (JObj [(''ownerId'', JStr ''${user.id}'')]) (h, u)
     = Inr (JObj [(''ownerId'', JStr (id_u u))])"
  by (simp add: resolveVariables_def reviver_def user_json_def)

lemma decorate_owner:
  assumes "roles u = [owner_role]"
  shows "decorate lodash_get owner_heap u
     = (Inr (Ability [\<lparr>actions_r = JStr ''update'', subject_r = ''Patient'', scope_r = None,
                        conditions_r = Some (JObj [(''ownerId'', JStr (id_u u))])\<rparr>]),
        owner_heap(0 := owner_permission\<lparr>conditions := Some (JObj [(''ownerId'', JStr (id_u u))])\<rparr>))"
  using assms
  by (simp add: decorate_def decorate_permission_def owner_role_def owner_heap_def
      owner_permission_def owner_resolve bind_scope_def pass_def Let_def)

text \<open>
  Claim C2 fails on the code. \<open>decorateUserImmutable\<close> decorates the original user,
  and the decoration overwrites the conditions template of the role's permission object
  with the values of this user: the shared role is changed, and another user holding the
  role is then decorated with the first user's id.
\<close>

theorem decorateUserImmutable_mutates_roles:
  "conditions (owner_heap 0) = Some (JObj [(''ownerId'', JStr ''${user.id}'')])
   \<and> conditions (snd (decorateUserImmutable lodash_get owner_heap ownerHTA1) 0)
       = Some (JObj [(''ownerId'', JStr ''uid3'')])
   \<and> fst (decorate lodash_get (snd (decorateUserImmutable lodash_get owner_heap ownerHTA1)) ownerHTA2)
       = Inr (Ability [\<lparr>actions_r = JStr ''update'', subject_r = ''Patient'', scope_r = None,
                         conditions_r = Some (JObj [(''ownerId'', JStr ''uid3'')])\<rparr>])"
proof -
  have h1: "snd (decorateUserImmutable lodash_get owner_heap ownerHTA1)
         = owner_heap(0 := owner_permission\<lparr>conditions := Some (JObj [(''ownerId'', JStr ''uid3'')])\<rparr>)"
    by (simp add: decorateUserImmutable_def decorate_owner ownerHTA1_def Let_def)
  have d2: "fst (decorate lodash_get
                  (owner_heap(0 := owner_permission\<lparr>conditions := Some (JObj [(''ownerId'', JStr ''uid3'')])\<rparr>))
                  ownerHTA2)
       = Inr (Ability [\<lparr>actions_r = JStr ''update'', subject_r = ''Patient'', scope_r = None,
                         conditions_r = Some (JObj [(''ownerId'', JStr ''uid3'')])\<rparr>])"
    by (simp add: decorate_def decorate_permission_def owner_role_def ownerHTA2_def
        owner_permission_def resolveVariables_def reviver_def bind_scope_def pass_def Let_def)
  show ?thesis
    unfolding h1 using d2 by (simp add: owner_heap_def owner_permission_def)
qed

text \<open>
  A second decoration resolves the already resolved conditions again: for a user whose id
  starts with \<open>$\<close> the first call returns a decision object and the second one fails.
\<close>

lemma decorate_twice_differs:
  "(\<exists>ab. fst (decorateUserImmutable lodash_get owner_heap ownerDollar) = Inr ab)
   \<and> fst (decorateUserImmutable lodash_get
             (snd (decorateUserImmutable lodash_get owner_heap ownerDollar)) ownerDollar)
       = Inl (VariableNotDefined (JStr []))"
proof -
  have h1: "decorateUserImmutable lodash_get owner_heap ownerDollar
         = (Inr ((cloneDeep owner_heap ownerDollar)\<lparr>ability_c :=
                 Some (Ability [\<lparr>actions_r = JStr ''update'', subject_r = ''Patient'', scope_r = None,
                        conditions_r = Some (JObj [(''ownerId'', JStr ''$7'')])\<rparr>])\<rparr>),
            owner_heap(0 := owner_permission\<lparr>conditions := Some (JObj [(''ownerId'', JStr ''$7'')])\<rparr>))"
    by (simp add: decorateUserImmutable_def decorate_owner ownerDollar_def Let_def)
  have d2: "decorate lodash_get
                  (owner_heap(0 := owner_permission\<lparr>conditions := Some (JObj [(''ownerId'', JStr ''$7'')])\<rparr>))
                  ownerDollar
       = (Inl (VariableNotDefined (JStr [])),
          owner_heap(0 := owner_permission\<lparr>conditions := Some (JObj [(''ownerId'', JStr ''$7'')])\<rparr>))"
    by (simp add: decorate_def decorate_permission_def owner_role_def ownerDollar_def
        owner_permission_def resolveVariables_def reviver_def user_json_def Let_def)
  show ?thesis
    unfolding h1 by (simp add: decorateUserImmutable_def d2 Let_def)
qed

text \<open>
  Claim C6 fails on the code. The scope name \<open>constructor\<close> is not one of the five
  predicates of the catalog, yet the lookup \<open>SCOPE_FUNCTIONS[fcnName]\<close> finds the
  property inherited from \<open>Object.prototype\<close>, and decoration returns a decision
  object instead of failing.
\<close>

theorem decorate_accepts_inherited_name:
  "SCOPE_FUNCTIONS ''constructor'' = Some (Inherited ''constructor'')
   \<and> decorate lodash_get builtin_heap readerHTA1
       = (Inr (Ability [\<lparr>actions_r = JStr ''read'', subject_r = ''Patient'',
                         scope_r = Some (Fn (Builtin ''constructor'')), conditions_r = None\<rparr>]),
          builtin_heap)"
  by (simp add: SCOPE_FUNCTIONS_def Object_prototype_def decorate_def decorate_permission_def
      readerHTA1_def builtin_heap_def builtin_permission_def bind_scope_def bind_def pass_def Let_def)

text \<open>
  A name that is neither a predicate of the catalog nor an inherited property does make
  decoration fail, whatever the heap and the other permissions are.
\<close>

lemma validate_fails:
  "n \<in> set ns \<Longrightarrow> SCOPE_FUNCTIONS n = None \<Longrightarrow> \<exists>e. validate ns = Inl e"
  by (induction ns) (auto split: option.splits)

lemma bind_scope_fails:
  assumes "scope p = Some sc"
    and "(sc = Name n \<and> n \<noteq> []) \<or> (\<exists>ns. sc = Names ns \<and> n \<in> set ns)"
    and "SCOPE_FUNCTIONS n = None"
  shows "\<exists>e. bind_scope user p = Inl e"
proof -
  let ?names = "case scope p of Some (Names ns) \<Rightarrow> ns | Some (Name n) \<Rightarrow> [n] | None \<Rightarrow> []"
  from assms(1,2) have t: "truthy_scope (scope p)" and m: "n \<in> set ?names" by auto
  from m assms(3) obtain e where "validate ?names = Inl e" using validate_fails by blast
  with t show ?thesis by (simp add: bind_scope_def Let_def)
qed

lemma decorate_permission_scope:
  "scope (snd (decorate_permission get user h a) b) = scope (h b)"
  by (simp add: decorate_permission_def Let_def split: option.splits sum.splits)

lemma decorate_permission_fails:
  assumes "scope (h a) = Some sc"
    and "(sc = Name n \<and> n \<noteq> []) \<or> (\<exists>ns. sc = Names ns \<and> n \<in> set ns)"
    and "SCOPE_FUNCTIONS n = None"
  shows "\<exists>e. fst (decorate_permission get user h a) = Inl e"
proof -
  have "\<And>c. \<exists>e. bind_scope user ((h a)\<lparr>conditions := c\<rparr>) = Inl e"
    using assms by (intro bind_scope_fails[of _ sc n]) simp_all
  moreover have "\<exists>e. bind_scope user (h a) = Inl e"
    using assms by (rule bind_scope_fails)
  ultimately show ?thesis
    by (auto simp: decorate_permission_def Let_def split: option.splits sum.splits)
qed

lemma decorate_permissions_fails:
  assumes "a \<in> set as" and "scope (h a) = Some sc"
    and "(sc = Name n \<and> n \<noteq> []) \<or> (\<exists>ns. sc = Names ns \<and> n \<in> set ns)"
    and "SCOPE_FUNCTIONS n = None"
  shows "\<exists>e. fst (decorate_permissions get user h as) = Inl e"
  using assms(1,2)
proof (induction as arbitrary: h)
  case Nil
  then show ?case by simp
next
  case (Cons b bs)
  obtain r h' where step: "decorate_permission get user h b = (r, h')"
    by (cases "decorate_permission get user h b")
  show ?case
  proof (cases r)
    case (Inl e)
    with step show ?thesis by simp
  next
    case (Inr x)
    have "a \<noteq> b"
    proof
      assume "a = b"
      with Cons.prems(2) assms(3,4) have "\<exists>e. fst (decorate_permission get user h b) = Inl e"
        by (intro decorate_permission_fails[of h b sc n]) simp_all
      with step Inr show False by simp
    qed
    with Cons.prems(1) have mem: "a \<in> set bs" by simp
    have "scope (h' a) = scope (h a)"
      using decorate_permission_scope[of get user h b a] step by simp
    with Cons.prems(2) have "scope (h' a) = Some sc" by simp
    with mem have "\<exists>e. fst (decorate_permissions get user h' bs) = Inl e" by (rule Cons.IH)
    with step Inr show ?thesis by (auto split: prod.splits sum.splits)
  qed
qed

lemma decorate_rejects_unknown_scope:
  assumes "a \<in> set (concat (map permissions (roles user)))" and "scope (h a) = Some sc"
    and "(sc = Name n \<and> n \<noteq> []) \<or> (\<exists>ns. sc = Names ns \<and> n \<in> set ns)"
    and "SCOPE_FUNCTIONS n = None"
  shows "\<exists>e. fst (decorate get h user) = Inl e"
proof -
  have "\<exists>e. fst (decorate_permissions get user h (concat (map permissions (roles user)))) = Inl e"
    using assms by (rule decorate_permissions_fails)
  then obtain e where
    "fst (decorate_permissions get user h (concat (map permissions (roles user)))) = Inl e" ..
  then show ?thesis by (auto simp: decorate_def split: prod.splits sum.splits)
qed

end
